theory Spec2Isabelle
  imports Main "HOL-Library.Word"
begin

section \<open>Data model of coroutine\_example.c\<close>

text \<open>
  The generator keeps its progress in a \<^verbatim>\<open>CoroutineState_t\<close>: the field
  \<^verbatim>\<open>resume_point\<close> (a C \<^verbatim>\<open>int\<close> that only ever receives constants and is only
  compared with constants, hence modelled as an integer) and the field \<^verbatim>\<open>data\<close>, a
  \<^verbatim>\<open>void *\<close> that the body casts to \<^verbatim>\<open>int32_t *\<close>.  The counter it points to lives
  outside the struct, in storage of the caller; the store maps every address that holds
  an \<^verbatim>\<open>int32_t\<close> object to its value.  Dereferencing an address that holds no such
  object, and signed overflow of the arithmetic on the counter (\<^verbatim>\<open>int\<close> is taken to be
  32 bits wide, as \<^verbatim>\<open>int32_t\<close> is), are undefined in C and are the faults of the model.
\<close>

type_synonym int32 = "32 word"
type_synonym addr = nat
type_synonym heap = "addr \<rightharpoonup> int32"

record CoroutineState =
  resume_point :: int
  data :: addr

datatype fault = InvalidPointer | SignedOverflow | IndeterminateValue

text \<open>The sequence sentinels, and the value of \<^verbatim>\<open>__LINE__\<close> where
  \<^verbatim>\<open>COROUTINE_YIELD\<close> is expanded (line 107 of the source file).\<close>

abbreviation (input) START_OF_SEQUENCE :: int where
  "START_OF_SEQUENCE \<equiv> 0"

abbreviation (input) END_OF_SEQUENCE :: int where
  "END_OF_SEQUENCE \<equiv> - 1"

abbreviation (input) YIELD_LINE :: int where
  "YIELD_LINE \<equiv> 107"

definition COROUTINE_INIT :: "CoroutineState \<Rightarrow> CoroutineState" where
  "COROUTINE_INIT s = s\<lparr>resume_point := START_OF_SEQUENCE\<rparr>"

definition COROUTINE_SEQUENCE_COMPLETE :: "CoroutineState \<Rightarrow> bool" where
  "COROUTINE_SEQUENCE_COMPLETE s \<longleftrightarrow> resume_point s = END_OF_SEQUENCE"

text \<open>The result of 32-bit signed arithmetic: the mathematical result when it is
  representable, undefined behaviour otherwise.\<close>

definition int32_of :: "int \<Rightarrow> fault + int32" where
  "int32_of i = (if - (2 ^ 31) \<le> i \<and> i < 2 ^ 31 then Inr (word_of_int i) else Inl SignedOverflow)"

section \<open>The generator\<close>

text \<open>
  A call returns a fault, or the returned value together with the updated struct and
  store.  The returned value is \<open>Some z\<close> when a \<^verbatim>\<open>return (z)\<close> statement ran, and
  \<open>None\<close> when control left the \<^verbatim>\<open>switch\<close> through \<^verbatim>\<open>break\<close> and reached the closing
  brace of the function, which returns no value.  A caller may store what such a call
  returned, as compiled code does with whatever the return register holds, but has
  nothing to read there: reading it is the fault \<open>IndeterminateValue\<close>.  (ISO C is
  stricter and leaves the behaviour undefined as soon as the caller uses the value of
  such a call at all.)

  \<open>COROUTINE_END_default\<close> is the \<^verbatim>\<open>default:\<close> label of \<^verbatim>\<open>COROUTINE_END\<close>;
  \<open>for_condition\<close> is the test of the \<^verbatim>\<open>for\<close> loop followed, when it holds, by the
  statements of \<^verbatim>\<open>COROUTINE_YIELD\<close> up to the \<^verbatim>\<open>return\<close>, and, when it fails, by
  the fall through into \<^verbatim>\<open>default:\<close>.
\<close>

type_synonym call_result = "fault + (int32 option \<times> CoroutineState \<times> heap)"

definition COROUTINE_END_default :: "CoroutineState \<Rightarrow> heap \<Rightarrow> call_result" where
  "COROUTINE_END_default s h = Inr (None, s\<lparr>resume_point := END_OF_SEQUENCE\<rparr>, h)"

definition for_condition :: "CoroutineState \<Rightarrow> heap \<Rightarrow> call_result" where
  "for_condition s h =
     (case h (data s) of
        None \<Rightarrow> Inl InvalidPointer
      | Some c \<Rightarrow>
          if sint c < 10 then
            (case int32_of (sint c * 2) of
               Inl e \<Rightarrow> Inl e
             | Inr z \<Rightarrow> Inr (Some z, s\<lparr>resume_point := YIELD_LINE\<rparr>, h))
          else COROUTINE_END_default s h)"

definition coroutine_example :: "CoroutineState \<Rightarrow> heap \<Rightarrow> call_result" where
  "coroutine_example s h =
     (if resume_point s = START_OF_SEQUENCE then
        (case h (data s) of
           None \<Rightarrow> Inl InvalidPointer
         | Some _ \<Rightarrow> for_condition s (h(data s \<mapsto> 0)))
      else if resume_point s = YIELD_LINE then
        (case h (data s) of
           None \<Rightarrow> Inl InvalidPointer
         | Some c \<Rightarrow>
             (case int32_of (sint c + 1) of
                Inl e \<Rightarrow> Inl e
              | Inr c' \<Rightarrow> for_condition s (h(data s \<mapsto> c'))))
      else COROUTINE_END_default s h)"

text \<open>The caller's side: \<open>calls n\<close> invokes the generator \<open>n\<close> times in a row on the
  same struct and store, and records for each call the returned value and the
  \<^verbatim>\<open>resume_point\<close> it left behind.\<close>

type_synonym observation = "int32 option \<times> int"

fun calls :: "nat \<Rightarrow> CoroutineState \<Rightarrow> heap \<Rightarrow> fault + (observation list \<times> CoroutineState \<times> heap)" where
  "calls 0 s h = Inr ([], s, h)"
| "calls (Suc n) s h =
     (case coroutine_example s h of
        Inl e \<Rightarrow> Inl e
      | Inr (r, s', h') \<Rightarrow>
          (case calls n s' h' of
             Inl e \<Rightarrow> Inl e
           | Inr (obs, s'', h'') \<Rightarrow> Inr ((r, resume_point s') # obs, s'', h'')))"

text \<open>\<open>trace\<close> keeps what a caller can observe of such a run.\<close>

definition trace :: "nat \<Rightarrow> CoroutineState \<Rightarrow> heap \<Rightarrow> fault + observation list" where
  "trace n s h = (case calls n s h of Inl e \<Rightarrow> Inl e | Inr (obs, s', h') \<Rightarrow> Inr obs)"

text \<open>
  \<open>drain\<close> is the consumer's loop in its plainest form: call, stop when
  \<^verbatim>\<open>COROUTINE_SEQUENCE_COMPLETE\<close> holds, otherwise keep the returned value and call
  again.  A value that was never returned cannot be kept: using it is a fault.  The loop
  ends on every input, because a struct that is not complete after a call is suspended
  at the yield site with a counter below 10, and the next call increments that counter.
\<close>

function drain :: "CoroutineState \<Rightarrow> heap \<Rightarrow> fault + int32 list" where
  "drain s h =
     (case coroutine_example s h of
        Inl e \<Rightarrow> Inl e
      | Inr (v, s', h') \<Rightarrow>
          if COROUTINE_SEQUENCE_COMPLETE s' then Inr []
          else (case v of
                  None \<Rightarrow> Inl IndeterminateValue
                | Some x \<Rightarrow>
                    (case drain s' h' of
                       Inl e \<Rightarrow> Inl e
                     | Inr xs \<Rightarrow> Inr (x # xs))))"
  by pat_completeness auto
termination
proof (relation "measure (\<lambda>(s, h).
         if resume_point s = START_OF_SEQUENCE then 11
         else case h (data s) of None \<Rightarrow> 0 | Some c \<Rightarrow> nat (10 - sint c))")
  show "wf (measure (\<lambda>(s, h).
         if resume_point s = START_OF_SEQUENCE then 11
         else case h (data s) of None \<Rightarrow> 0 | Some c \<Rightarrow> nat (10 - sint c)))"
    by simp
next
  fix s :: CoroutineState and h :: heap and res v rest s' h' x
  assume "coroutine_example s h = Inr res"
    and "(v, rest) = res" and "(s', h') = rest"
    and live: "\<not> COROUTINE_SEQUENCE_COMPLETE s'"
  then have call: "coroutine_example s h = Inr (v, s', h')"
    by simp
  have in_range: "sint (word_of_int i :: int32) = i"
    if "- (2 ^ 31) \<le> i" and "i < 2 ^ 31" for i
    using that by (simp add: sint_sbintrunc' signed_take_bit_int_eq_self)
  have sint_succ: "sint (c + 1) = sint c + 1"
    if "sint c + 1 < 2 ^ 31" for c :: int32
    using that in_range [of "sint c + 1"] sint_ge [of c] by simp
  from call live sint_succ
  show "((s', h'), (s, h)) \<in> measure (\<lambda>(s, h).
         if resume_point s = START_OF_SEQUENCE then 11
         else case h (data s) of None \<Rightarrow> 0 | Some c \<Rightarrow> nat (10 - sint c))"
    by (auto simp: coroutine_example_def for_condition_def COROUTINE_END_default_def
        COROUTINE_SEQUENCE_COMPLETE_def int32_of_def
        split: if_splits option.splits sum.splits)
qed

section \<open>The demonstration driver\<close>

text \<open>
  \<^verbatim>\<open>printf("Output: %d\n", value)\<close> appends one line to the standard output:
  \<open>decimal\<close> writes a natural number in base ten, \<open>printf_d\<close> is the \<^verbatim>\<open>%d\<close>
  conversion.
\<close>

function decimal :: "nat \<Rightarrow> string" where
  "decimal n =
     (if n < 10 then [''0123456789'' ! n]
      else decimal (n div 10) @ [''0123456789'' ! (n mod 10)])"
  by pat_completeness auto
termination
  by (relation "measure id") simp_all

definition printf_d :: "int \<Rightarrow> string" where
  "printf_d i = (if i < 0 then CHR ''-'' # decimal (nat (- i)) else decimal (nat i))"

definition printf_Output :: "int32 \<Rightarrow> string" where
  "printf_Output v = ''Output: '' @ printf_d (sint v) @ [CHR 0x0A]"

text \<open>
  \<open>main_loop\<close> is the \<^verbatim>\<open>for (;;)\<close> loop of \<^verbatim>\<open>main\<close>, with the standard output
  written so far as its last argument.  The local \<^verbatim>\<open>value\<close> receives what the call
  returned; when the call returned nothing it is indeterminate, and printing it would
  be a fault.  \<open>main\<close> takes the address at which the local \<^verbatim>\<open>state_data\<close> is
  allocated, and returns the output together with the exit code.
\<close>

function main_loop :: "CoroutineState \<Rightarrow> heap \<Rightarrow> string \<Rightarrow> fault + string" where
  "main_loop state h out =
     (case coroutine_example state h of
        Inl e \<Rightarrow> Inl e
      | Inr (v, state', h') \<Rightarrow>
          if COROUTINE_SEQUENCE_COMPLETE state' then Inr out
          else (case v of
                  None \<Rightarrow> Inl IndeterminateValue
                | Some x \<Rightarrow> main_loop state' h' (out @ printf_Output x)))"
  by pat_completeness auto
termination
proof (relation "measure (\<lambda>(s, h, out).
         if resume_point s = START_OF_SEQUENCE then 11
         else case h (data s) of None \<Rightarrow> 0 | Some c \<Rightarrow> nat (10 - sint c))")
  show "wf (measure (\<lambda>(s, h, out).
         if resume_point s = START_OF_SEQUENCE then 11
         else case h (data s) of None \<Rightarrow> 0 | Some c \<Rightarrow> nat (10 - sint c)))"
    by simp
next
  fix state :: CoroutineState and h :: heap and out :: string
    and res v rest state' h' x
  assume "coroutine_example state h = Inr res"
    and "(v, rest) = res" and "(state', h') = rest"
    and live: "\<not> COROUTINE_SEQUENCE_COMPLETE state'"
  then have call: "coroutine_example state h = Inr (v, state', h')"
    by simp
  have in_range: "sint (word_of_int i :: int32) = i"
    if "- (2 ^ 31) \<le> i" and "i < 2 ^ 31" for i
    using that by (simp add: sint_sbintrunc' signed_take_bit_int_eq_self)
  have sint_succ: "sint (c + 1) = sint c + 1"
    if "sint c + 1 < 2 ^ 31" for c :: int32
    using that in_range [of "sint c + 1"] sint_ge [of c] by simp
  from call live sint_succ
  show "((state', h', out @ printf_Output x), (state, h, out)) \<in> measure (\<lambda>(s, h, out).
         if resume_point s = START_OF_SEQUENCE then 11
         else case h (data s) of None \<Rightarrow> 0 | Some c \<Rightarrow> nat (10 - sint c))"
    by (auto simp: coroutine_example_def for_condition_def COROUTINE_END_default_def
        COROUTINE_SEQUENCE_COMPLETE_def int32_of_def
        split: if_splits option.splits sum.splits)
qed

definition main :: "addr \<Rightarrow> fault + (string \<times> int)" where
  "main state_data =
     (let h = [state_data \<mapsto> 0];
          state = \<lparr>resume_point = START_OF_SEQUENCE, data = state_data\<rparr>
      in case main_loop state h [] of
           Inl e \<Rightarrow> Inl e
         | Inr out \<Rightarrow> Inr (out, 0))"

section \<open>What the specification compares the generator with\<close>

text \<open>
  The equivalent loop that never suspends: the body of \<^verbatim>\<open>coroutine_example\<close> with
  the yield replaced by emitting the value, run to completion in one pass from a given
  counter value.  \<open>nonsuspending_run\<close> starts it as the loop initialiser does, at 0.
\<close>

function nonsuspending_loop :: "int32 \<Rightarrow> fault + int32 list" where
  "nonsuspending_loop counter =
     (if sint counter < 10 then
        (case int32_of (sint counter * 2) of
           Inl e \<Rightarrow> Inl e
         | Inr z \<Rightarrow>
             (case int32_of (sint counter + 1) of
                Inl e \<Rightarrow> Inl e
              | Inr counter' \<Rightarrow>
                  (case nonsuspending_loop counter' of
                     Inl e \<Rightarrow> Inl e
                   | Inr zs \<Rightarrow> Inr (z # zs))))
      else Inr [])"
  by pat_completeness auto
termination
proof (relation "measure (\<lambda>counter. nat (10 - sint counter))")
  show "wf (measure (\<lambda>counter :: int32. nat (10 - sint counter)))"
    by simp
next
  fix counter z counter' :: int32
  assume small: "sint counter < 10"
    and next_counter: "int32_of (sint counter + 1) = Inr counter'"
  have "sint (word_of_int (sint counter + 1) :: int32) = signed_take_bit 31 (sint counter + 1)"
    by (simp only: sint_sbintrunc') simp
  also have "\<dots> = sint counter + 1"
    using small sint_ge [of counter] by (simp add: signed_take_bit_int_eq_self)
  finally have "sint counter' = sint counter + 1"
    using next_counter by (simp add: int32_of_def split: if_splits)
  with small show "(counter', counter) \<in> measure (\<lambda>counter. nat (10 - sint counter))"
    by simp
qed

definition nonsuspending_run :: "fault + int32 list" where
  "nonsuspending_run = nonsuspending_loop 0"

text \<open>
  The state machine of the specification: not started, suspended at a marker, exhausted.
  \<open>position_of\<close> reads a \<^verbatim>\<open>resume_point\<close> as such a state, and \<open>advance\<close> holds for
  the transitions the specification permits; the only yield site of the body is the one
  marked \<^verbatim>\<open>YIELD_LINE\<close>.
\<close>

datatype position = NOT_STARTED | SUSPENDED int | EXHAUSTED

definition position_of :: "int \<Rightarrow> position" where
  "position_of p =
     (if p = START_OF_SEQUENCE then NOT_STARTED
      else if p = END_OF_SEQUENCE then EXHAUSTED
      else SUSPENDED p)"

fun advance :: "position \<Rightarrow> position \<Rightarrow> bool" where
  "advance NOT_STARTED q \<longleftrightarrow> q = SUSPENDED YIELD_LINE \<or> q = EXHAUSTED"
| "advance (SUSPENDED m) q \<longleftrightarrow> q = SUSPENDED YIELD_LINE \<or> q = EXHAUSTED"
| "advance EXHAUSTED q \<longleftrightarrow> q = EXHAUSTED"

text \<open>
  The body of \<^verbatim>\<open>coroutine_example\<close> with the literal 10 of the loop condition replaced
  by a parameter, so that a sequence with no element can be written: the same three
  pieces as above, and \<open>coroutine_example\<close> itself at the bound 10.
\<close>

definition for_condition_upto :: "int \<Rightarrow> CoroutineState \<Rightarrow> heap \<Rightarrow> call_result" where
  "for_condition_upto bound s h =
     (case h (data s) of
        None \<Rightarrow> Inl InvalidPointer
      | Some c \<Rightarrow>
          if sint c < bound then
            (case int32_of (sint c * 2) of
               Inl e \<Rightarrow> Inl e
             | Inr z \<Rightarrow> Inr (Some z, s\<lparr>resume_point := YIELD_LINE\<rparr>, h))
          else COROUTINE_END_default s h)"

definition coroutine_example_upto :: "int \<Rightarrow> CoroutineState \<Rightarrow> heap \<Rightarrow> call_result" where
  "coroutine_example_upto bound s h =
     (if resume_point s = START_OF_SEQUENCE then
        (case h (data s) of
           None \<Rightarrow> Inl InvalidPointer
         | Some _ \<Rightarrow> for_condition_upto bound s (h(data s \<mapsto> 0)))
      else if resume_point s = YIELD_LINE then
        (case h (data s) of
           None \<Rightarrow> Inl InvalidPointer
         | Some c \<Rightarrow>
             (case int32_of (sint c + 1) of
                Inl e \<Rightarrow> Inl e
              | Inr c' \<Rightarrow> for_condition_upto bound s (h(data s \<mapsto> c'))))
      else COROUTINE_END_default s h)"

declare drain.simps [simp del] main_loop.simps [simp del] nonsuspending_loop.simps [simp del]

section \<open>Arithmetic on the counter\<close>

lemma sint_word_of_int32:
  "- (2 ^ 31) \<le> i \<Longrightarrow> i < 2 ^ 31 \<Longrightarrow> sint (word_of_int i :: int32) = i"
  by (simp add: sint_sbintrunc' signed_take_bit_int_eq_self)

lemma sint_succ32:
  "sint (c :: int32) + 1 < 2 ^ 31 \<Longrightarrow> sint (c + 1) = sint c + 1"
  using sint_word_of_int32 [of "sint c + 1"] sint_ge [of c] by simp

lemma sint_of_nat_small: "n < 2 ^ 31 \<Longrightarrow> sint (of_nat n :: int32) = int n"
  using sint_word_of_int32 [of "int n"] by simp

lemma int32_of_succ_small:
  "sint (c :: int32) < 10 \<Longrightarrow> int32_of (sint c + 1) = Inr (c + 1)"
  using sint_ge [of c] by (simp add: int32_of_def)

section \<open>Single calls\<close>

text \<open>The four ways through the \<^verbatim>\<open>switch\<close>: entry at \<^verbatim>\<open>case 0\<close>, re-entry at the
  yield site with another element to produce, re-entry with none left, and
  \<^verbatim>\<open>default\<close>.\<close>

lemma call_start:
  "resume_point s = START_OF_SEQUENCE \<Longrightarrow> h (data s) = Some c \<Longrightarrow>
   coroutine_example s h = Inr (Some 0, s\<lparr>resume_point := YIELD_LINE\<rparr>, h(data s \<mapsto> 0))"
  by (simp add: coroutine_example_def for_condition_def int32_of_def)

lemma call_resume_yield:
  assumes "resume_point s = YIELD_LINE" and "h (data s) = Some c"
    and "- (2 ^ 30) \<le> sint c + 1" and "sint c + 1 < 10"
  shows "coroutine_example s h = Inr (Some ((c + 1) * 2), s, h(data s \<mapsto> c + 1))"
proof -
  have "sint (c + 1) = sint c + 1"
    using assms(4) by (simp add: sint_succ32)
  moreover have "s\<lparr>resume_point := YIELD_LINE\<rparr> = s"
    using assms(1) by simp
  ultimately show ?thesis
    using assms by (simp add: coroutine_example_def for_condition_def int32_of_def)
qed

lemma call_resume_end:
  assumes "resume_point s = YIELD_LINE" and "h (data s) = Some c"
    and "10 \<le> sint c + 1" and "sint c + 1 < 2 ^ 31"
  shows "coroutine_example s h
       = Inr (None, s\<lparr>resume_point := END_OF_SEQUENCE\<rparr>, h(data s \<mapsto> c + 1))"
proof -
  have "sint (c + 1) = sint c + 1"
    using assms(4) by (simp add: sint_succ32)
  with assms show ?thesis
    by (simp add: coroutine_example_def for_condition_def int32_of_def
        COROUTINE_END_default_def)
qed

lemma call_default:
  "resume_point s \<noteq> START_OF_SEQUENCE \<Longrightarrow> resume_point s \<noteq> YIELD_LINE \<Longrightarrow>
   coroutine_example s h = Inr (None, s\<lparr>resume_point := END_OF_SEQUENCE\<rparr>, h)"
  by (simp add: coroutine_example_def COROUTINE_END_default_def)

lemma call_exhausted:
  "resume_point s = END_OF_SEQUENCE \<Longrightarrow> coroutine_example s h = Inr (None, s, h)"
  by (simp add: coroutine_example_def COROUTINE_END_default_def)

lemma call_effect:
  assumes "coroutine_example s h = Inr (r, s', h')"
  shows "s' = s\<lparr>resume_point := resume_point s'\<rparr>"
    and "\<And>a. a \<noteq> data s \<Longrightarrow> h' a = h a"
    and "dom h' = dom h"
    and "resume_point s' = YIELD_LINE \<or> resume_point s' = END_OF_SEQUENCE"
    and "r = None \<longleftrightarrow> resume_point s' = END_OF_SEQUENCE"
  using assms
  by (auto simp: coroutine_example_def for_condition_def COROUTINE_END_default_def
      split: if_splits option.splits sum.splits)

text \<open>The calls that fault are exactly the entries at \<^verbatim>\<open>case 0\<close> and at the yield site
  with no counter behind \<^verbatim>\<open>data\<close>, and the re-entries with a counter that cannot be
  incremented, or cannot be doubled afterwards, in 32 bits.\<close>

lemma call_faults_iff:
  "(\<exists>e. coroutine_example s h = Inl e) \<longleftrightarrow>
     (resume_point s = START_OF_SEQUENCE \<or> resume_point s = YIELD_LINE) \<and>
     (case h (data s) of
        None \<Rightarrow> True
      | Some c \<Rightarrow> resume_point s = YIELD_LINE
                  \<and> \<not> (- (2 ^ 30) \<le> sint c + 1 \<and> sint c + 1 < 2 ^ 31))"
proof (cases "h (data s)")
  case None
  then show ?thesis
    by (simp add: coroutine_example_def COROUTINE_END_default_def)
next
  case (Some c)
  consider (start) "resume_point s = START_OF_SEQUENCE"
    | (other) "resume_point s \<noteq> START_OF_SEQUENCE" "resume_point s \<noteq> YIELD_LINE"
    | (over) "resume_point s = YIELD_LINE" "2 ^ 31 \<le> sint c + 1"
    | (under) "resume_point s = YIELD_LINE" "sint c + 1 < - (2 ^ 30)"
    | (yield) "resume_point s = YIELD_LINE" "- (2 ^ 30) \<le> sint c + 1" "sint c + 1 < 10"
    | (finish) "resume_point s = YIELD_LINE" "10 \<le> sint c + 1" "sint c + 1 < 2 ^ 31"
    by linarith
  then show ?thesis
  proof cases
    case start
    with Some show ?thesis by (simp add: call_start)
  next
    case other
    with Some show ?thesis by (simp add: call_default)
  next
    case over
    with Some show ?thesis by (simp add: coroutine_example_def int32_of_def)
  next
    case under
    then have "sint (c + 1) = sint c + 1"
      by (simp add: sint_succ32)
    with under Some show ?thesis
      by (simp add: coroutine_example_def for_condition_def int32_of_def)
  next
    case yield
    with Some show ?thesis by (simp add: call_resume_yield)
  next
    case finish
    with Some show ?thesis by (simp add: call_resume_end)
  qed
qed

section \<open>Frame of a call\<close>

text \<open>
  C6.  A call that returns changes nothing but \<^verbatim>\<open>resume_point\<close> and the counter that
  \<^verbatim>\<open>data\<close> points to: the \<^verbatim>\<open>data\<close> field is the same pointer afterwards, the
  struct differs from the old one in \<^verbatim>\<open>resume_point\<close> at most, every object of the
  store other than the counter keeps its value, and no object appears or disappears.
  This holds for every struct and store, whatever \<^verbatim>\<open>resume_point\<close> holds.
\<close>

theorem call_frame:
  assumes "coroutine_example s h = Inr (r, s', h')"
  shows "data s' = data s
       \<and> s' = s\<lparr>resume_point := resume_point s'\<rparr>
       \<and> (\<forall>a. a \<noteq> data s \<longrightarrow> h' a = h a)
       \<and> dom h' = dom h"
proof -
  from assms have same: "s' = s\<lparr>resume_point := resume_point s'\<rparr>"
    by (rule call_effect(1))
  then have "data s' = data (s\<lparr>resume_point := resume_point s'\<rparr>)"
    by simp
  then have "data s' = data s"
    by simp
  moreover from assms have "\<forall>a. a \<noteq> data s \<longrightarrow> h' a = h a"
    by (simp add: call_effect(2))
  moreover from assms have "dom h' = dom h"
    by (rule call_effect(3))
  ultimately show ?thesis
    using same by simp
qed

theorem call_frame_witness:
  "coroutine_example \<lparr>resume_point = YIELD_LINE, data = 7\<rparr> [7 \<mapsto> 3, 8 \<mapsto> 42]
     = Inr (Some 8, \<lparr>resume_point = YIELD_LINE, data = 7\<rparr>, [7 \<mapsto> 4, 8 \<mapsto> 42])
   \<and> data \<lparr>resume_point = YIELD_LINE, data = 7\<rparr> = 7
   \<and> [7 \<mapsto> 4, 8 \<mapsto> 42] 8 = [7 \<mapsto> 3, 8 \<mapsto> (42 :: int32)] 8
   \<and> dom [7 \<mapsto> 4, 8 \<mapsto> (42 :: int32)] = dom [7 \<mapsto> 3, 8 \<mapsto> (42 :: int32)]"
proof -
  have call: "coroutine_example \<lparr>resume_point = YIELD_LINE, data = 7\<rparr> [7 \<mapsto> 3, 8 \<mapsto> 42]
      = Inr (Some 8, \<lparr>resume_point = YIELD_LINE, data = 7\<rparr>, [7 \<mapsto> 4, 8 \<mapsto> 42])"
    by (simp add: coroutine_example_def for_condition_def int32_of_def fun_upd_twist)
  from call_frame [OF call] call show ?thesis
    by simp
qed

section \<open>Runs of calls\<close>

lemma calls_Suc_end:
  "calls (Suc n) s h =
     (case calls n s h of
        Inl e \<Rightarrow> Inl e
      | Inr (obs, s1, h1) \<Rightarrow>
          (case coroutine_example s1 h1 of
             Inl e \<Rightarrow> Inl e
           | Inr (r, s2, h2) \<Rightarrow> Inr (obs @ [(r, resume_point s2)], s2, h2)))"
proof (induction n arbitrary: s h)
  case 0
  show ?case by (simp split: sum.splits prod.splits)
next
  case (Suc n)
  show ?case
    by (subst calls.simps(2), subst Suc.IH) (simp split: sum.splits prod.splits)
qed

lemma calls_add:
  "calls (m + n) s h =
     (case calls m s h of
        Inl e \<Rightarrow> Inl e
      | Inr (obs, s1, h1) \<Rightarrow>
          (case calls n s1 h1 of
             Inl e \<Rightarrow> Inl e
           | Inr (obs', s2, h2) \<Rightarrow> Inr (obs @ obs', s2, h2)))"
proof (induction m arbitrary: s h)
  case 0
  show ?case by (simp split: sum.splits prod.splits)
next
  case (Suc m)
  show ?case
    by (simp add: Suc.IH split: sum.splits prod.splits)
qed

lemma calls_exhausted:
  "resume_point s = END_OF_SEQUENCE \<Longrightarrow>
   calls n s h = Inr (replicate n (None, END_OF_SEQUENCE), s, h)"
  by (induction n) (simp_all add: call_exhausted)

lemma calls_yielding:
  assumes "resume_point s = START_OF_SEQUENCE" and "h (data s) = Some c"
  shows "n \<le> 9 \<Longrightarrow>
    calls (Suc n) s h =
      Inr (map (\<lambda>k. (Some (of_nat (2 * k)), YIELD_LINE)) [0..<Suc n],
           s\<lparr>resume_point := YIELD_LINE\<rparr>, h(data s \<mapsto> of_nat n))"
proof (induction n)
  case 0
  from assms have "calls (Suc 0) s h =
      Inr (map (\<lambda>k. (Some (of_nat (2 * k)), YIELD_LINE)) [0..<Suc 0],
           s\<lparr>resume_point := YIELD_LINE\<rparr>, h(data s \<mapsto> of_nat 0))"
    by (simp add: call_start)
  then show ?case .
next
  case (Suc n)
  let ?s = "s\<lparr>resume_point := YIELD_LINE\<rparr>"
  let ?h = "h(data s \<mapsto> of_nat n)"
  from Suc.prems have n: "n \<le> 8" by simp
  then have sn: "sint (of_nat n :: int32) = int n"
    by (simp add: sint_of_nat_small)
  have "coroutine_example ?s ?h
      = Inr (Some ((of_nat n + 1) * 2), ?s, ?h(data ?s \<mapsto> of_nat n + 1))"
    by (rule call_resume_yield) (use n sn in simp_all)
  moreover have "calls (Suc n) s h
      = Inr (map (\<lambda>k. (Some (of_nat (2 * k)), YIELD_LINE)) [0..<Suc n], ?s, ?h)"
    by (rule Suc.IH) (use n in simp)
  ultimately show ?case
    by (subst calls_Suc_end) (simp add: algebra_simps)
qed

lemma calls_eleven:
  assumes "resume_point s = START_OF_SEQUENCE" and "h (data s) = Some c"
  shows "calls 11 s h =
      Inr (map (\<lambda>k. (Some (of_nat (2 * k)), YIELD_LINE)) [0..<10] @ [(None, END_OF_SEQUENCE)],
           s\<lparr>resume_point := END_OF_SEQUENCE\<rparr>, h(data s \<mapsto> 10))"
proof -
  let ?s = "s\<lparr>resume_point := YIELD_LINE\<rparr>"
  let ?h = "h(data s \<mapsto> 9)"
  have ten: "calls 10 s h
      = Inr (map (\<lambda>k. (Some (of_nat (2 * k)), YIELD_LINE)) [0..<10], ?s, ?h)"
    using assms calls_yielding [of s h c 9] by (simp add: eval_nat_numeral)
  have "coroutine_example ?s ?h
      = Inr (None, ?s\<lparr>resume_point := END_OF_SEQUENCE\<rparr>, ?h(data ?s \<mapsto> 9 + 1))"
    by (rule call_resume_end) simp_all
  with ten have "calls (Suc 10) s h =
      Inr (map (\<lambda>k. (Some (of_nat (2 * k)), YIELD_LINE)) [0..<10] @ [(None, END_OF_SEQUENCE)],
           s\<lparr>resume_point := END_OF_SEQUENCE\<rparr>, h(data s \<mapsto> 10))"
    by (subst calls_Suc_end) simp
  then show ?thesis by (simp add: eval_nat_numeral)
qed

lemma calls_fresh:
  assumes "resume_point s = START_OF_SEQUENCE" and "h (data s) = Some c"
  shows "\<exists>s' h'. calls n s h =
      Inr (map (\<lambda>k. (Some (of_nat (2 * k)), YIELD_LINE)) [0..<min n 10]
             @ replicate (n - 10) (None, END_OF_SEQUENCE), s', h')"
proof -
  have "n = 0 \<or> (\<exists>m. n = Suc m \<and> m \<le> 9) \<or> (\<exists>m. n = 11 + m)"
    by presburger
  then consider (none) "n = 0" | (yielding) m where "n = Suc m" "m \<le> 9"
    | (finished) m where "n = 11 + m"
    by blast
  then show ?thesis
  proof cases
    case none
    then show ?thesis by simp
  next
    case yielding
    then have "min n 10 = n" and "n - 10 = 0"
      by simp_all
    with yielding assms calls_yielding [of s h c m] show ?thesis
      by simp
  next
    case finished
    let ?s = "s\<lparr>resume_point := END_OF_SEQUENCE\<rparr>"
    have "calls m ?s (h(data s \<mapsto> 10))
        = Inr (replicate m (None, END_OF_SEQUENCE), ?s, h(data s \<mapsto> 10))"
      by (rule calls_exhausted) simp
    with assms have "calls (11 + m) s h =
        Inr ((map (\<lambda>k. (Some (of_nat (2 * k)), YIELD_LINE)) [0..<10] @ [(None, END_OF_SEQUENCE)])
               @ replicate m (None, END_OF_SEQUENCE), ?s, h(data s \<mapsto> 10))"
      by (subst calls_add) (simp add: calls_eleven)
    moreover from finished have "min n 10 = 10" and "n - 10 = Suc m"
      by simp_all
    ultimately show ?thesis
      using finished by simp
  qed
qed

section \<open>Every call returns\<close>

text \<open>
  C7.  Not every call returns: one that enters at \<^verbatim>\<open>case 0\<close> or at the yield site
  with no counter behind \<^verbatim>\<open>data\<close>, and a re-entry whose counter cannot be incremented,
  or cannot be doubled afterwards, in 32 bits, is undefined in C and a fault here
  (lemma \<open>call_faults_iff\<close>, and the two calls evaluated after the theorem).  What
  holds is this.  Let \<^verbatim>\<open>data\<close> point to a counter, and, when the struct is suspended
  at the yield site, let the counter be one that can be incremented and doubled in 32
  bits (every counter the generator itself leaves behind is between 0 and 9).  Then
  the call returns.  While an element remains, that is on entry at
  \<^verbatim>\<open>START_OF_SEQUENCE\<close> or on re-entry with the incremented counter below 10, it
  returns one value through the \<^verbatim>\<open>return\<close> statement, twice the counter, and stays
  suspended at the yield site.  In every other case, the call that completes the body
  and every call after it, it stores \<^verbatim>\<open>END_OF_SEQUENCE\<close> and reaches the closing brace
  without a \<^verbatim>\<open>return\<close>, so no value is returned, and it does so without a fault.  In
  particular any number \<open>n\<close> of calls in a row on a fresh struct with a counter
  attached all return: the first ten with a value, the later ones with none.
\<close>

theorem every_call_returns:
  assumes "h (data s) = Some c"
    and "resume_point s = YIELD_LINE \<longrightarrow> - (2 ^ 30) \<le> sint c + 1 \<and> sint c + 1 < 2 ^ 31"
  shows "(\<exists>r s' h'. coroutine_example s h = Inr (r, s', h') \<and>
           (if resume_point s = START_OF_SEQUENCE
               \<or> (resume_point s = YIELD_LINE \<and> sint c + 1 < 10)
            then r = Some (if resume_point s = START_OF_SEQUENCE then 0 else (c + 1) * 2)
               \<and> resume_point s' = YIELD_LINE
            else r = None \<and> resume_point s' = END_OF_SEQUENCE))
       \<and> (resume_point s = START_OF_SEQUENCE \<longrightarrow>
            (\<exists>s' h'. calls n s h =
               Inr (map (\<lambda>k. (Some (of_nat (2 * k)), YIELD_LINE)) [0..<min n 10]
                      @ replicate (n - 10) (None, END_OF_SEQUENCE), s', h')))"
proof (intro conjI impI)
  assume "resume_point s = START_OF_SEQUENCE"
  then show "\<exists>s' h'. calls n s h =
      Inr (map (\<lambda>k. (Some (of_nat (2 * k)), YIELD_LINE)) [0..<min n 10]
             @ replicate (n - 10) (None, END_OF_SEQUENCE), s', h')"
    using assms(1) by (rule calls_fresh)
next
  consider (start) "resume_point s = START_OF_SEQUENCE"
    | (yield) "resume_point s = YIELD_LINE" "sint c + 1 < 10"
    | (finish) "resume_point s = YIELD_LINE" "10 \<le> sint c + 1"
    | (other) "resume_point s \<noteq> START_OF_SEQUENCE" "resume_point s \<noteq> YIELD_LINE"
    by linarith
  then show "\<exists>r s' h'. coroutine_example s h = Inr (r, s', h') \<and>
           (if resume_point s = START_OF_SEQUENCE
               \<or> (resume_point s = YIELD_LINE \<and> sint c + 1 < 10)
            then r = Some (if resume_point s = START_OF_SEQUENCE then 0 else (c + 1) * 2)
               \<and> resume_point s' = YIELD_LINE
            else r = None \<and> resume_point s' = END_OF_SEQUENCE)"
  proof cases
    case start
    with assms(1) show ?thesis
      by (simp add: call_start)
  next
    case yield
    with assms have "coroutine_example s h
        = Inr (Some ((c + 1) * 2), s, h(data s \<mapsto> c + 1))"
      by (intro call_resume_yield) simp_all
    with yield show ?thesis
      by simp
  next
    case finish
    with assms have "coroutine_example s h
        = Inr (None, s\<lparr>resume_point := END_OF_SEQUENCE\<rparr>, h(data s \<mapsto> c + 1))"
      by (intro call_resume_end) simp_all
    with finish show ?thesis
      by simp
  next
    case other
    then show ?thesis
      by (simp add: call_default)
  qed
qed

theorem every_call_returns_witness:
  "(\<exists>r s' h'. coroutine_example \<lparr>resume_point = YIELD_LINE, data = 7\<rparr> [7 \<mapsto> 3]
        = Inr (r, s', h') \<and> r = Some 8 \<and> resume_point s' = YIELD_LINE)
   \<and> (\<exists>r s' h'. coroutine_example \<lparr>resume_point = YIELD_LINE, data = 7\<rparr> [7 \<mapsto> 9]
        = Inr (r, s', h') \<and> r = None \<and> resume_point s' = END_OF_SEQUENCE)
   \<and> (\<exists>s' h'. calls 12 \<lparr>resume_point = START_OF_SEQUENCE, data = 7\<rparr> [7 \<mapsto> 3]
        = Inr (map (\<lambda>k. (Some (of_nat (2 * k)), YIELD_LINE)) [0..<10]
                 @ [(None, END_OF_SEQUENCE), (None, END_OF_SEQUENCE)], s', h'))"
  using every_call_returns [of "[7 \<mapsto> 3]" "\<lparr>resume_point = YIELD_LINE, data = 7\<rparr>" 3]
    every_call_returns [of "[7 \<mapsto> 9]" "\<lparr>resume_point = YIELD_LINE, data = 7\<rparr>" 9]
    every_call_returns [of "[7 \<mapsto> 3]" "\<lparr>resume_point = START_OF_SEQUENCE, data = 7\<rparr>" 3 12]
  by (simp add: numeral_2_eq_2)

text \<open>
  The two kinds of call that do not return: the first call on a struct whose \<^verbatim>\<open>data\<close>
  points to no counter, which dereferences it in the loop initialiser, and a re-entry
  at the yield site with the counter at the largest 32-bit value, which the increment
  overflows.
\<close>

theorem every_call_returns_counterexample:
  "coroutine_example \<lparr>resume_point = START_OF_SEQUENCE, data = 0\<rparr> Map.empty
     = Inl InvalidPointer
   \<and> coroutine_example \<lparr>resume_point = YIELD_LINE, data = 7\<rparr> [7 \<mapsto> 2147483647]
     = Inl SignedOverflow"
  by (simp add: coroutine_example_def int32_of_def)

section \<open>The doubled integers 0..9\<close>

text \<open>
  C1.  Start from a struct with \<^verbatim>\<open>resume_point = START_OF_SEQUENCE\<close> whose \<^verbatim>\<open>data\<close>
  points to a counter, whatever the counter holds.  For every \<open>n\<close> from 0 to 9, the
  calls number 0 to \<open>n\<close> return 0, 2, ..., \<open>2 * n\<close> in this order, so call number \<open>n\<close>
  returns \<open>2 * n\<close>; each leaves the struct suspended at the yield site, and the counter
  holds \<open>n\<close> after call number \<open>n\<close>.  The eleventh call returns no value and leaves
  \<^verbatim>\<open>resume_point = END_OF_SEQUENCE\<close>, so \<^verbatim>\<open>COROUTINE_SEQUENCE_COMPLETE\<close> holds after it
  and did not hold before.
\<close>

theorem doubled_integers:
  assumes "resume_point s = START_OF_SEQUENCE" and "h (data s) = Some c"
  shows "(\<forall>n \<le> 9. calls (Suc n) s h =
            Inr (map (\<lambda>k. (Some (of_nat (2 * k)), YIELD_LINE)) [0..<Suc n],
                 s\<lparr>resume_point := YIELD_LINE\<rparr>, h(data s \<mapsto> of_nat n)))
       \<and> calls 11 s h =
            Inr (map (\<lambda>k. (Some (of_nat (2 * k)), YIELD_LINE)) [0..<10] @ [(None, END_OF_SEQUENCE)],
                 s\<lparr>resume_point := END_OF_SEQUENCE\<rparr>, h(data s \<mapsto> 10))
       \<and> \<not> COROUTINE_SEQUENCE_COMPLETE (s\<lparr>resume_point := YIELD_LINE\<rparr>)
       \<and> COROUTINE_SEQUENCE_COMPLETE (s\<lparr>resume_point := END_OF_SEQUENCE\<rparr>)"
proof (intro conjI allI impI)
  fix n :: nat
  assume "n \<le> 9"
  with assms show "calls (Suc n) s h =
      Inr (map (\<lambda>k. (Some (of_nat (2 * k)), YIELD_LINE)) [0..<Suc n],
           s\<lparr>resume_point := YIELD_LINE\<rparr>, h(data s \<mapsto> of_nat n))"
    by (rule calls_yielding)
next
  from assms show "calls 11 s h =
      Inr (map (\<lambda>k. (Some (of_nat (2 * k)), YIELD_LINE)) [0..<10] @ [(None, END_OF_SEQUENCE)],
           s\<lparr>resume_point := END_OF_SEQUENCE\<rparr>, h(data s \<mapsto> 10))"
    by (rule calls_eleven)
next
  show "\<not> COROUTINE_SEQUENCE_COMPLETE (s\<lparr>resume_point := YIELD_LINE\<rparr>)"
    by (simp add: COROUTINE_SEQUENCE_COMPLETE_def)
next
  show "COROUTINE_SEQUENCE_COMPLETE (s\<lparr>resume_point := END_OF_SEQUENCE\<rparr>)"
    by (simp add: COROUTINE_SEQUENCE_COMPLETE_def)
qed

theorem doubled_integers_witness:
  "calls 4 \<lparr>resume_point = START_OF_SEQUENCE, data = 7\<rparr> [7 \<mapsto> 42]
     = Inr ([(Some 0, YIELD_LINE), (Some 2, YIELD_LINE), (Some 4, YIELD_LINE), (Some 6, YIELD_LINE)],
            \<lparr>resume_point = YIELD_LINE, data = 7\<rparr>, [7 \<mapsto> 3])
   \<and> calls 11 \<lparr>resume_point = START_OF_SEQUENCE, data = 7\<rparr> [7 \<mapsto> 42]
     = Inr ([(Some 0, YIELD_LINE), (Some 2, YIELD_LINE), (Some 4, YIELD_LINE), (Some 6, YIELD_LINE),
             (Some 8, YIELD_LINE), (Some 10, YIELD_LINE), (Some 12, YIELD_LINE),
             (Some 14, YIELD_LINE), (Some 16, YIELD_LINE), (Some 18, YIELD_LINE),
             (None, END_OF_SEQUENCE)],
            \<lparr>resume_point = END_OF_SEQUENCE, data = 7\<rparr>, [7 \<mapsto> 10])"
proof -
  have upto: "\<forall>n \<le> 9. calls (Suc n) \<lparr>resume_point = START_OF_SEQUENCE, data = 7\<rparr> [7 \<mapsto> 42] =
            Inr (map (\<lambda>k. (Some (of_nat (2 * k)), YIELD_LINE)) [0..<Suc n],
                 \<lparr>resume_point = YIELD_LINE, data = 7\<rparr>, [7 \<mapsto> of_nat n])"
    and eleven: "calls 11 \<lparr>resume_point = START_OF_SEQUENCE, data = 7\<rparr> [7 \<mapsto> 42] =
            Inr (map (\<lambda>k. (Some (of_nat (2 * k)), YIELD_LINE)) [0..<10] @ [(None, END_OF_SEQUENCE)],
                 \<lparr>resume_point = END_OF_SEQUENCE, data = 7\<rparr>, [7 \<mapsto> 10])"
    using doubled_integers [of "\<lparr>resume_point = START_OF_SEQUENCE, data = 7\<rparr>" "[7 \<mapsto> 42]" 42]
    by (simp_all del: calls.simps upt_Suc)
  have "calls (Suc 3) \<lparr>resume_point = START_OF_SEQUENCE, data = 7\<rparr> [7 \<mapsto> 42] =
            Inr (map (\<lambda>k. (Some (of_nat (2 * k)), YIELD_LINE)) [0..<Suc 3],
                 \<lparr>resume_point = YIELD_LINE, data = 7\<rparr>, [7 \<mapsto> of_nat 3])"
    by (rule upto [rule_format]) simp
  then have "calls 4 \<lparr>resume_point = START_OF_SEQUENCE, data = 7\<rparr> [7 \<mapsto> 42]
     = Inr ([(Some 0, YIELD_LINE), (Some 2, YIELD_LINE), (Some 4, YIELD_LINE), (Some 6, YIELD_LINE)],
            \<lparr>resume_point = YIELD_LINE, data = 7\<rparr>, [7 \<mapsto> 3])"
    by (simp add: eval_nat_numeral upt_rec del: calls.simps)
  moreover from eleven
  have "calls 11 \<lparr>resume_point = START_OF_SEQUENCE, data = 7\<rparr> [7 \<mapsto> 42]
     = Inr ([(Some 0, YIELD_LINE), (Some 2, YIELD_LINE), (Some 4, YIELD_LINE), (Some 6, YIELD_LINE),
             (Some 8, YIELD_LINE), (Some 10, YIELD_LINE), (Some 12, YIELD_LINE),
             (Some 14, YIELD_LINE), (Some 16, YIELD_LINE), (Some 18, YIELD_LINE),
             (None, END_OF_SEQUENCE)],
            \<lparr>resume_point = END_OF_SEQUENCE, data = 7\<rparr>, [7 \<mapsto> 10])"
    by (simp add: upt_rec del: calls.simps)
  ultimately show ?thesis
    by (rule conjI)
qed

section \<open>Exhaustion is terminal\<close>

text \<open>
  C3.  On a struct whose \<^verbatim>\<open>resume_point\<close> is \<^verbatim>\<open>END_OF_SEQUENCE\<close>, whatever the
  attached counter holds (and even when nothing is attached), any number \<open>n\<close> of calls
  succeeds; every one of them returns no value and leaves \<^verbatim>\<open>resume_point\<close> at
  \<^verbatim>\<open>END_OF_SEQUENCE\<close>, and the struct and the whole store, the counter included, are
  what they were before, so that \<^verbatim>\<open>COROUTINE_SEQUENCE_COMPLETE\<close> still holds.
\<close>

theorem exhausted_calls_are_noops:
  assumes "resume_point s = END_OF_SEQUENCE"
  shows "calls n s h = Inr (replicate n (None, END_OF_SEQUENCE), s, h)
       \<and> coroutine_example s h = Inr (None, s, h)
       \<and> COROUTINE_SEQUENCE_COMPLETE s"
  using assms
  by (simp add: calls_exhausted call_exhausted COROUTINE_SEQUENCE_COMPLETE_def)

theorem exhausted_calls_are_noops_witness:
  "calls 3 \<lparr>resume_point = END_OF_SEQUENCE, data = 7\<rparr> [7 \<mapsto> 42]
     = Inr ([(None, END_OF_SEQUENCE), (None, END_OF_SEQUENCE), (None, END_OF_SEQUENCE)],
            \<lparr>resume_point = END_OF_SEQUENCE, data = 7\<rparr>, [7 \<mapsto> 42])
   \<and> coroutine_example \<lparr>resume_point = END_OF_SEQUENCE, data = 7\<rparr> [7 \<mapsto> 42]
     = Inr (None, \<lparr>resume_point = END_OF_SEQUENCE, data = 7\<rparr>, [7 \<mapsto> 42])
   \<and> COROUTINE_SEQUENCE_COMPLETE \<lparr>resume_point = END_OF_SEQUENCE, data = 7\<rparr>"
  using exhausted_calls_are_noops [of "\<lparr>resume_point = END_OF_SEQUENCE, data = 7\<rparr>" 3 "[7 \<mapsto> 42]"]
  by (simp add: numeral_3_eq_3 del: calls.simps)

section \<open>The state machine\<close>

lemma call_advance:
  assumes "coroutine_example s h = Inr (r, s', h')"
  shows "advance (position_of (resume_point s)) (position_of (resume_point s'))"
proof -
  from assms have "resume_point s' = YIELD_LINE \<or> resume_point s' = END_OF_SEQUENCE"
    by (rule call_effect(4))
  moreover have "resume_point s' = END_OF_SEQUENCE" if "resume_point s = END_OF_SEQUENCE"
    using assms that by (simp add: call_exhausted)
  ultimately show ?thesis
    by (cases "position_of (resume_point s)")
       (auto simp: position_of_def split: if_splits)
qed

lemma calls_positions:
  "calls n s h = Inr (obs, s', h') \<Longrightarrow>
   successively advance (map position_of (resume_point s # map snd obs))
   \<and> resume_point s' = last (resume_point s # map snd obs)
   \<and> (\<forall>ob \<in> set obs. snd ob = YIELD_LINE \<or> snd ob = END_OF_SEQUENCE)
   \<and> length obs = n"
proof (induction n arbitrary: s h obs)
  case 0
  then show ?case by simp
next
  case (Suc n)
  from Suc.prems obtain r s1 h1 obs1
    where call: "coroutine_example s h = Inr (r, s1, h1)"
      and rest: "calls n s1 h1 = Inr (obs1, s', h')"
      and obs: "obs = (r, resume_point s1) # obs1"
    by (auto split: sum.splits prod.splits)
  note IH = Suc.IH [OF rest]
  from call have "advance (position_of (resume_point s)) (position_of (resume_point s1))"
    by (rule call_advance)
  moreover from call have "resume_point s1 = YIELD_LINE \<or> resume_point s1 = END_OF_SEQUENCE"
    by (rule call_effect(4))
  ultimately show ?case
    using IH obs by auto
qed

text \<open>
  C4.  Take any run of \<open>n\<close> calls that return, from any struct and store, and read the
  \<^verbatim>\<open>resume_point\<close> before the first call and after each call as a state of the
  specification's machine.  Each call is a permitted transition: from not started, and
  from suspended, to suspended at the yield site or to exhausted; from exhausted to
  exhausted only.  Every \<^verbatim>\<open>resume_point\<close> a call leaves behind is the marker of the
  yield site or \<^verbatim>\<open>END_OF_SEQUENCE\<close>, the struct ends with the last of them, and a run
  that starts exhausted stays exhausted throughout.
\<close>

theorem run_respects_state_machine:
  assumes "calls n s h = Inr (obs, s', h')"
  shows "successively advance (map position_of (resume_point s # map snd obs))
       \<and> (\<forall>ob \<in> set obs. snd ob = YIELD_LINE \<or> snd ob = END_OF_SEQUENCE)
       \<and> resume_point s' = last (resume_point s # map snd obs)
       \<and> (resume_point s = END_OF_SEQUENCE \<longrightarrow> (\<forall>ob \<in> set obs. snd ob = END_OF_SEQUENCE))"
proof -
  have "\<forall>ob \<in> set obs. snd ob = END_OF_SEQUENCE" if "resume_point s = END_OF_SEQUENCE"
  proof -
    from that have "calls n s h = Inr (replicate n (None, END_OF_SEQUENCE), s, h)"
      by (rule calls_exhausted)
    with assms have "obs = replicate n (None, END_OF_SEQUENCE)"
      by simp
    then show ?thesis
      by simp
  qed
  with calls_positions [OF assms] show ?thesis
    by blast
qed

theorem run_respects_state_machine_witness:
  "calls 12 \<lparr>resume_point = START_OF_SEQUENCE, data = 7\<rparr> [7 \<mapsto> 42]
     = Inr (map (\<lambda>k. (Some (of_nat (2 * k)), YIELD_LINE)) [0..<10]
              @ [(None, END_OF_SEQUENCE), (None, END_OF_SEQUENCE)],
            \<lparr>resume_point = END_OF_SEQUENCE, data = 7\<rparr>, [7 \<mapsto> 10])
   \<and> successively advance
         (NOT_STARTED # replicate 10 (SUSPENDED YIELD_LINE) @ [EXHAUSTED, EXHAUSTED])"
proof -
  let ?s = "\<lparr>resume_point = START_OF_SEQUENCE, data = 7\<rparr>"
  let ?e = "\<lparr>resume_point = END_OF_SEQUENCE, data = 7\<rparr>"
  have eleven: "calls 11 ?s [7 \<mapsto> 42] =
      Inr (map (\<lambda>k. (Some (of_nat (2 * k)), YIELD_LINE)) [0..<10] @ [(None, END_OF_SEQUENCE)],
           ?e, [7 \<mapsto> 10])"
    using calls_eleven [of ?s "[7 \<mapsto> 42]" 42] by simp
  have "calls (11 + 1) ?s [7 \<mapsto> 42] =
      Inr (map (\<lambda>k. (Some (of_nat (2 * k)), YIELD_LINE)) [0..<10]
             @ [(None, END_OF_SEQUENCE), (None, END_OF_SEQUENCE)], ?e, [7 \<mapsto> 10])"
    by (subst calls_add) (simp add: eleven call_exhausted del: upt_Suc)
  then have run: "calls 12 ?s [7 \<mapsto> 42] =
      Inr (map (\<lambda>k. (Some (of_nat (2 * k)), YIELD_LINE)) [0..<10]
             @ [(None, END_OF_SEQUENCE), (None, END_OF_SEQUENCE)], ?e, [7 \<mapsto> 10])"
    by (simp del: calls.simps upt_Suc)
  from run_respects_state_machine [OF run]
  have "successively advance (map position_of (resume_point ?s #
      map snd (map (\<lambda>k. (Some (of_nat (2 * k) :: int32), YIELD_LINE)) [0..<10]
             @ [(None, END_OF_SEQUENCE), (None, END_OF_SEQUENCE)])))"
    by (rule conjunct1)
  then have "successively advance
      (NOT_STARTED # replicate 10 (SUSPENDED YIELD_LINE) @ [EXHAUSTED, EXHAUSTED])"
    by (simp add: position_of_def upt_rec eval_nat_numeral)
  with run show ?thesis
    by (rule conjI)
qed

text \<open>
  C5.  After \<^verbatim>\<open>COROUTINE_INIT\<close>, \<^verbatim>\<open>resume_point\<close> is \<^verbatim>\<open>START_OF_SEQUENCE\<close> only as
  long as no call has been made: in a run of \<open>n\<close> calls that return, no call leaves
  \<^verbatim>\<open>START_OF_SEQUENCE\<close> behind, and the struct at the end holds it exactly when
  \<open>n = 0\<close>.
\<close>

theorem start_marker_only_before_first_call:
  assumes "calls n (COROUTINE_INIT s) h = Inr (obs, s', h')"
  shows "(\<forall>ob \<in> set obs. snd ob \<noteq> START_OF_SEQUENCE)
       \<and> (resume_point s' = START_OF_SEQUENCE \<longleftrightarrow> n = 0)"
proof -
  note run = calls_positions [OF assms]
  from run have marks: "\<forall>ob \<in> set obs. snd ob = YIELD_LINE \<or> snd ob = END_OF_SEQUENCE"
    by simp
  then have never: "\<forall>ob \<in> set obs. snd ob \<noteq> START_OF_SEQUENCE"
    by fastforce
  have "resume_point s' = START_OF_SEQUENCE \<longleftrightarrow> n = 0"
  proof (cases "obs = []")
    case True
    with run show ?thesis
      by (simp add: COROUTINE_INIT_def)
  next
    case False
    then have "last (map snd obs) \<in> snd ` set obs"
      by (metis last_in_set last_map list.set_map map_is_Nil_conv)
    with never have "last (map snd obs) \<noteq> START_OF_SEQUENCE"
      by auto
    with False run show ?thesis
      by auto
  qed
  with never show ?thesis
    by simp
qed

theorem start_marker_only_before_first_call_witness:
  "calls 2 (COROUTINE_INIT \<lparr>resume_point = 55, data = 7\<rparr>) [7 \<mapsto> 42]
     = Inr ([(Some 0, YIELD_LINE), (Some 2, YIELD_LINE)],
            \<lparr>resume_point = YIELD_LINE, data = 7\<rparr>, [7 \<mapsto> 1])
   \<and> resume_point \<lparr>resume_point = YIELD_LINE, data = 7\<rparr> \<noteq> START_OF_SEQUENCE"
proof -
  have run: "calls 2 (COROUTINE_INIT \<lparr>resume_point = 55, data = 7\<rparr>) [7 \<mapsto> 42]
     = Inr ([(Some 0, YIELD_LINE), (Some 2, YIELD_LINE)],
            \<lparr>resume_point = YIELD_LINE, data = 7\<rparr>, [7 \<mapsto> 1])"
    by (simp add: numeral_2_eq_2 COROUTINE_INIT_def coroutine_example_def for_condition_def
        int32_of_def)
  from start_marker_only_before_first_call [OF run] run show ?thesis
    by simp
qed

section \<open>The initial value of the counter\<close>

text \<open>
  C10.  What the caller stored in the counter before the first call cannot be observed:
  on a struct with \<^verbatim>\<open>resume_point = START_OF_SEQUENCE\<close>, two stores that differ in the
  value of the counter only give the same returned values and the same
  \<^verbatim>\<open>resume_point\<close> after each of \<open>n\<close> calls, and, once a call has been made, the same
  struct and the same store as well.
\<close>

theorem initial_counter_irrelevant:
  assumes "resume_point s = START_OF_SEQUENCE"
  shows "trace n s (h(data s \<mapsto> c1)) = trace n s (h(data s \<mapsto> c2))
       \<and> (0 < n \<longrightarrow> calls n s (h(data s \<mapsto> c1)) = calls n s (h(data s \<mapsto> c2)))"
proof (cases n)
  case 0
  then show ?thesis
    by (simp add: trace_def)
next
  case (Suc m)
  have first: "coroutine_example s (h(data s \<mapsto> c))
      = Inr (Some 0, s\<lparr>resume_point := YIELD_LINE\<rparr>, h(data s \<mapsto> 0))" for c
    using assms call_start [of s "h(data s \<mapsto> c)" c] by simp
  have "calls (Suc m) s (h(data s \<mapsto> c1)) = calls (Suc m) s (h(data s \<mapsto> c2))"
    by (simp add: first)
  with Suc show ?thesis
    by (simp add: trace_def)
qed

theorem initial_counter_irrelevant_witness:
  "trace 11 \<lparr>resume_point = START_OF_SEQUENCE, data = 7\<rparr> [7 \<mapsto> 0]
     = trace 11 \<lparr>resume_point = START_OF_SEQUENCE, data = 7\<rparr> [7 \<mapsto> 1000]
   \<and> calls 11 \<lparr>resume_point = START_OF_SEQUENCE, data = 7\<rparr> [7 \<mapsto> 0]
     = calls 11 \<lparr>resume_point = START_OF_SEQUENCE, data = 7\<rparr> [7 \<mapsto> 1000]"
  using initial_counter_irrelevant
    [of "\<lparr>resume_point = START_OF_SEQUENCE, data = 7\<rparr>" 11 Map.empty 0 1000]
  by (simp del: calls.simps)

section \<open>Suspension is transparent\<close>

text \<open>Re-entry at the yield site continues the loop where it stood: on a suspended
  struct the values still to come are those of the loop that never suspends, started at
  the incremented counter.  The loop initialiser is not run again.\<close>

lemma drain_resumes_loop:
  "resume_point s = YIELD_LINE \<Longrightarrow> h (data s) = Some c \<Longrightarrow>
   int32_of (sint c + 1) = Inr counter \<Longrightarrow>
   drain s h = nonsuspending_loop counter"
proof (induction counter arbitrary: c h rule: nonsuspending_loop.induct)
  case (1 counter)
  have same: "s\<lparr>resume_point := YIELD_LINE\<rparr> = s"
    using "1.prems"(1) by simp
  show ?case
  proof (cases "sint counter < 10")
    case False
    with "1.prems" have "coroutine_example s h
        = Inr (None, s\<lparr>resume_point := END_OF_SEQUENCE\<rparr>, h(data s \<mapsto> counter))"
      by (simp add: coroutine_example_def for_condition_def COROUTINE_END_default_def)
    then have "drain s h = Inr []"
      by (subst drain.simps) (simp add: COROUTINE_SEQUENCE_COMPLETE_def)
    with False show ?thesis
      by (subst nonsuspending_loop.simps) simp
  next
    case True
    then have succ: "int32_of (sint counter + 1) = Inr (counter + 1)"
      by (rule int32_of_succ_small)
    show ?thesis
    proof (cases "int32_of (sint counter * 2)")
      case (Inl e)
      with True "1.prems" have "coroutine_example s h = Inl e"
        by (simp add: coroutine_example_def for_condition_def)
      then have "drain s h = Inl e"
        by (subst drain.simps) simp
      with True Inl show ?thesis
        by (subst nonsuspending_loop.simps) simp
    next
      case (Inr z)
      with True "1.prems" same have call: "coroutine_example s h
          = Inr (Some z, s, h(data s \<mapsto> counter))"
        by (simp add: coroutine_example_def for_condition_def)
      have "drain s (h(data s \<mapsto> counter)) = nonsuspending_loop (counter + 1)"
        using True Inr succ "1.prems"(1)
        by (intro "1.IH" [where c = counter]) simp_all
      with call "1.prems"(1) have "drain s h =
          (case nonsuspending_loop (counter + 1) of
             Inl e \<Rightarrow> Inl e
           | Inr zs \<Rightarrow> Inr (z # zs))"
        by (subst drain.simps) (simp add: COROUTINE_SEQUENCE_COMPLETE_def)
      with True Inr succ show ?thesis
        by (subst nonsuspending_loop.simps) simp
    qed
  qed
qed

lemma drain_fresh:
  assumes "resume_point s = START_OF_SEQUENCE" and "h (data s) = Some c"
  shows "drain s h = nonsuspending_run"
proof -
  let ?s = "s\<lparr>resume_point := YIELD_LINE\<rparr>"
  let ?h = "h(data s \<mapsto> 0)"
  have "drain ?s ?h = nonsuspending_loop 1"
    by (rule drain_resumes_loop [where c = 0]) (simp_all add: int32_of_def)
  moreover have "drain s h =
      (case drain ?s ?h of Inl e \<Rightarrow> Inl e | Inr xs \<Rightarrow> Inr (0 # xs))"
    using assms
    by (subst drain.simps) (simp add: call_start COROUTINE_SEQUENCE_COMPLETE_def)
  moreover have "nonsuspending_loop 0 =
      (case nonsuspending_loop 1 of Inl e \<Rightarrow> Inl e | Inr zs \<Rightarrow> Inr (0 # zs))"
    by (subst nonsuspending_loop.simps) (simp add: int32_of_def)
  ultimately show ?thesis
    by (simp add: nonsuspending_run_def)
qed

lemma nonsuspending_run_values:
  "nonsuspending_run = Inr [0, 2, 4, 6, 8, 10, 12, 14, 16, 18]"
  unfolding nonsuspending_run_def
  by (simp add: nonsuspending_loop.simps int32_of_def)

text \<open>
  C2.  Let \<^verbatim>\<open>data\<close> point to a counter.  Calling the generator on a fresh struct
  until \<^verbatim>\<open>COROUTINE_SEQUENCE_COMPLETE\<close> holds collects exactly what the loop that never
  suspends emits in one pass, faults included, and that is 0, 2, ..., 18.  The same
  holds in the middle of the sequence: on a struct suspended at the yield site, with
  any counter that can be incremented, the calls collect what the loop that never
  suspends emits when it continues from the incremented counter, so a re-entry
  finishes the iteration it left and does not run the loop initialiser again.
\<close>

theorem suspension_is_transparent:
  assumes "h (data s) = Some c"
  shows "(resume_point s = START_OF_SEQUENCE \<longrightarrow> drain s h = nonsuspending_run)
       \<and> (resume_point s = YIELD_LINE \<and> sint c + 1 < 2 ^ 31 \<longrightarrow>
            drain s h = nonsuspending_loop (c + 1))
       \<and> nonsuspending_run = Inr [0, 2, 4, 6, 8, 10, 12, 14, 16, 18]"
proof (intro conjI impI)
  assume "resume_point s = START_OF_SEQUENCE"
  then show "drain s h = nonsuspending_run"
    using assms by (rule drain_fresh)
next
  assume suspended: "resume_point s = YIELD_LINE \<and> sint c + 1 < 2 ^ 31"
  then have "int32_of (sint c + 1) = Inr (c + 1)"
    using sint_ge [of c] by (simp add: int32_of_def)
  with suspended assms show "drain s h = nonsuspending_loop (c + 1)"
    by (intro drain_resumes_loop [where c = c]) simp_all
next
  show "nonsuspending_run = Inr [0, 2, 4, 6, 8, 10, 12, 14, 16, 18]"
    by (rule nonsuspending_run_values)
qed

theorem suspension_is_transparent_witness:
  "drain \<lparr>resume_point = START_OF_SEQUENCE, data = 7\<rparr> [7 \<mapsto> 42]
     = Inr [0, 2, 4, 6, 8, 10, 12, 14, 16, 18]
   \<and> drain \<lparr>resume_point = YIELD_LINE, data = 7\<rparr> [7 \<mapsto> 6] = Inr [14, 16, 18]"
proof -
  have "nonsuspending_loop (6 + 1) = Inr [14, 16, 18]"
    by (simp add: nonsuspending_loop.simps int32_of_def)
  then show ?thesis
    using suspension_is_transparent
        [of "[7 \<mapsto> 42]" "\<lparr>resume_point = START_OF_SEQUENCE, data = 7\<rparr>" 42]
      suspension_is_transparent
        [of "[7 \<mapsto> 6]" "\<lparr>resume_point = YIELD_LINE, data = 7\<rparr>" 6]
    by simp
qed

section \<open>The output of main\<close>

lemma main_loop_start:
  assumes "resume_point s = START_OF_SEQUENCE" and "h (data s) = Some c"
  shows "main_loop s h out
       = main_loop (s\<lparr>resume_point := YIELD_LINE\<rparr>) (h(data s \<mapsto> 0)) (out @ printf_Output 0)"
  using assms
  by (subst main_loop.simps) (simp add: call_start COROUTINE_SEQUENCE_COMPLETE_def)

lemma main_loop_resume:
  assumes "resume_point s = YIELD_LINE" and "h (data s) = Some c"
    and "0 \<le> sint c" and "sint c < 9"
  shows "main_loop s h out
       = main_loop s (h(data s \<mapsto> c + 1)) (out @ printf_Output ((c + 1) * 2))"
proof -
  from assms have "coroutine_example s h
      = Inr (Some ((c + 1) * 2), s, h(data s \<mapsto> c + 1))"
    by (intro call_resume_yield) simp_all
  with assms(1) show ?thesis
    by (subst main_loop.simps) (simp add: COROUTINE_SEQUENCE_COMPLETE_def)
qed

lemma main_loop_finish:
  assumes "resume_point s = YIELD_LINE" and "h (data s) = Some 9"
  shows "main_loop s h out = Inr out"
proof -
  from assms have "coroutine_example s h
      = Inr (None, s\<lparr>resume_point := END_OF_SEQUENCE\<rparr>, h(data s \<mapsto> 9 + 1))"
    by (intro call_resume_end) simp_all
  then show ?thesis
    by (subst main_loop.simps) (simp add: COROUTINE_SEQUENCE_COMPLETE_def)
qed

lemma printf_Output_values:
  "printf_Output 0 = ''Output: 0'' @ [CHR 0x0A]"
  "printf_Output 2 = ''Output: 2'' @ [CHR 0x0A]"
  "printf_Output 4 = ''Output: 4'' @ [CHR 0x0A]"
  "printf_Output 6 = ''Output: 6'' @ [CHR 0x0A]"
  "printf_Output 8 = ''Output: 8'' @ [CHR 0x0A]"
  "printf_Output 10 = ''Output: 10'' @ [CHR 0x0A]"
  "printf_Output 12 = ''Output: 12'' @ [CHR 0x0A]"
  "printf_Output 14 = ''Output: 14'' @ [CHR 0x0A]"
  "printf_Output 16 = ''Output: 16'' @ [CHR 0x0A]"
  "printf_Output 18 = ''Output: 18'' @ [CHR 0x0A]"
  by (simp_all add: printf_Output_def printf_d_def)

text \<open>
  C8.  Wherever \<^verbatim>\<open>state_data\<close> is allocated, \<^verbatim>\<open>main\<close> ends without a fault and
  returns 0, and its standard output consists of the ten lines \<^verbatim>\<open>Output: 0\<close>,
  \<^verbatim>\<open>Output: 2\<close>, ..., \<^verbatim>\<open>Output: 18\<close>, each ended by a newline, and of nothing else.
  The loop leaves on \<^verbatim>\<open>COROUTINE_SEQUENCE_COMPLETE\<close>, tested on the struct before the
  returned value is looked at: the eleventh call returns no value, and printing it
  would have been the fault \<open>IndeterminateValue\<close>.
\<close>

theorem main_prints_ten_values:
  "main state_data =
     Inr (concat (map (\<lambda>digits. ''Output: '' @ digits @ [CHR 0x0A])
            [''0'', ''2'', ''4'', ''6'', ''8'', ''10'', ''12'', ''14'', ''16'', ''18'']), 0)"
proof -
  let ?s = "\<lparr>resume_point = YIELD_LINE, data = state_data\<rparr>"
  have resume: "main_loop ?s [state_data \<mapsto> c] out
      = main_loop ?s [state_data \<mapsto> c + 1] (out @ printf_Output ((c + 1) * 2))"
    if "0 \<le> sint c" and "sint c < 9" for c out
    using main_loop_resume [of ?s "[state_data \<mapsto> c]" c out] that by simp
  have finish: "main_loop ?s [state_data \<mapsto> 9] out = Inr out" for out
    using main_loop_finish [of ?s "[state_data \<mapsto> 9]" out] by simp
  have "main_loop \<lparr>resume_point = START_OF_SEQUENCE, data = state_data\<rparr> [state_data \<mapsto> 0] []
      = main_loop ?s [state_data \<mapsto> 0] (printf_Output 0)"
    using main_loop_start
      [of "\<lparr>resume_point = START_OF_SEQUENCE, data = state_data\<rparr>" "[state_data \<mapsto> 0]" 0 "[]"]
    by simp
  also have "\<dots> = Inr (printf_Output 0 @ printf_Output 2 @ printf_Output 4 @ printf_Output 6
      @ printf_Output 8 @ printf_Output 10 @ printf_Output 12 @ printf_Output 14
      @ printf_Output 16 @ printf_Output 18)"
    by (simp add: resume finish)
  finally show ?thesis
    by (simp add: main_def printf_Output_values)
qed

section \<open>A sequence with no element\<close>

lemma for_condition_upto_10: "for_condition_upto 10 = for_condition"
  by (intro ext) (simp add: for_condition_upto_def for_condition_def)

lemma coroutine_example_upto_10: "coroutine_example_upto 10 = coroutine_example"
  unfolding coroutine_example_upto_def coroutine_example_def for_condition_upto_10
  by (rule refl)

text \<open>
  C9.  Take the body of \<^verbatim>\<open>coroutine_example\<close> with a loop bound that the counter 0
  does not stay below, so that the loop body never runs.  The first call on a fresh
  struct with a counter attached then returns no value and leaves
  \<^verbatim>\<open>resume_point = END_OF_SEQUENCE\<close>: the state goes from not started to exhausted at
  once.  The loop initialiser has still set the counter to 0.
\<close>

theorem empty_sequence_exhausts_at_once:
  assumes "bound \<le> 0"
    and "resume_point s = START_OF_SEQUENCE" and "h (data s) = Some c"
  shows "coroutine_example_upto bound s h
           = Inr (None, s\<lparr>resume_point := END_OF_SEQUENCE\<rparr>, h(data s \<mapsto> 0))
       \<and> position_of (resume_point s) = NOT_STARTED
       \<and> position_of (resume_point (s\<lparr>resume_point := END_OF_SEQUENCE\<rparr>)) = EXHAUSTED"
  using assms
  by (simp add: coroutine_example_upto_def for_condition_upto_def COROUTINE_END_default_def
      position_of_def)

theorem empty_sequence_exhausts_at_once_witness:
  "coroutine_example_upto 0 \<lparr>resume_point = START_OF_SEQUENCE, data = 7\<rparr> [7 \<mapsto> 42]
     = Inr (None, \<lparr>resume_point = END_OF_SEQUENCE, data = 7\<rparr>, [7 \<mapsto> 0])
   \<and> position_of START_OF_SEQUENCE = NOT_STARTED
   \<and> position_of END_OF_SEQUENCE = EXHAUSTED"
  using empty_sequence_exhausts_at_once
    [of 0 "\<lparr>resume_point = START_OF_SEQUENCE, data = 7\<rparr>" "[7 \<mapsto> 42]" 42]
  by simp

end
